theory Spec2Isabelle
  imports Complex_Main "HOL-Library.Multiset"
begin

section \<open>Python floats and exceptions\<close>

text \<open>
  The solver of \<^verbatim>\<open>jrp_solver.py\<close> computes with Python floats. A float is modelled as
  a real number or one of the three special values of IEEE arithmetic. Finite values are
  computed exactly: the model leaves out the rounding of the 53-bit significand, overflow
  to infinity, underflow to zero and the sign of zero. What the model keeps is every place
  where Python leaves float arithmetic and raises: division by zero, the square root of a
  negative number, and the conversion of an infinity or a NaN to an integer. A field that
  arrives as a Python int takes the same path: every division of the solver is the true
  division \<^verbatim>\<open>/\<close>, which raises at a zero divisor and gives a float otherwise.
\<close>

datatype pyfloat = Fin (fin_value: real) | PInf | NInf | NaN

datatype error =
  IndexError | ZeroDivisionError | ValueError | OverflowError | AttributeError | TypeError

text \<open>Sequencing: an exception raised by the first step ends the computation.\<close>

definition and_then :: "error + 'a \<Rightarrow> ('a \<Rightarrow> error + 'b) \<Rightarrow> error + 'b" where
  "and_then m f = (case m of Inl e \<Rightarrow> Inl e | Inr x \<Rightarrow> f x)"

definition signed_inf :: "real \<Rightarrow> pyfloat" where
  "signed_inf x = (if x = 0 then NaN else if 0 < x then PInf else NInf)"

fun py_add :: "pyfloat \<Rightarrow> pyfloat \<Rightarrow> pyfloat" where
  "py_add (Fin x) (Fin y) = Fin (x + y)"
| "py_add (Fin x) PInf = PInf"
| "py_add (Fin x) NInf = NInf"
| "py_add PInf (Fin y) = PInf"
| "py_add NInf (Fin y) = NInf"
| "py_add PInf PInf = PInf"
| "py_add NInf NInf = NInf"
| "py_add PInf NInf = NaN"
| "py_add NInf PInf = NaN"
| "py_add NaN y = NaN"
| "py_add x NaN = NaN"

fun py_mul :: "pyfloat \<Rightarrow> pyfloat \<Rightarrow> pyfloat" where
  "py_mul (Fin x) (Fin y) = Fin (x * y)"
| "py_mul (Fin x) PInf = signed_inf x"
| "py_mul (Fin x) NInf = signed_inf (- x)"
| "py_mul PInf (Fin y) = signed_inf y"
| "py_mul NInf (Fin y) = signed_inf (- y)"
| "py_mul PInf PInf = PInf"
| "py_mul NInf NInf = PInf"
| "py_mul PInf NInf = NInf"
| "py_mul NInf PInf = NInf"
| "py_mul NaN y = NaN"
| "py_mul x NaN = NaN"

text \<open>
  Python's \<^verbatim>\<open>/\<close> on floats raises ZeroDivisionError for every dividend when the divisor
  is zero; it never returns an infinity or a NaN for it.
\<close>

fun py_div :: "pyfloat \<Rightarrow> pyfloat \<Rightarrow> error + pyfloat" where
  "py_div (Fin x) (Fin y) = (if y = 0 then Inl ZeroDivisionError else Inr (Fin (x / y)))"
| "py_div PInf (Fin y) = (if y = 0 then Inl ZeroDivisionError else Inr (signed_inf y))"
| "py_div NInf (Fin y) = (if y = 0 then Inl ZeroDivisionError else Inr (signed_inf (- y)))"
| "py_div NaN (Fin y) = (if y = 0 then Inl ZeroDivisionError else Inr NaN)"
| "py_div (Fin x) PInf = Inr (Fin 0)"
| "py_div (Fin x) NInf = Inr (Fin 0)"
| "py_div x NaN = Inr NaN"
| "py_div NaN y = Inr NaN"
| "py_div x y = Inr NaN"

text \<open>The comparison \<^verbatim>\<open><\<close>: false whenever an operand is a NaN.\<close>

fun py_lt :: "pyfloat \<Rightarrow> pyfloat \<Rightarrow> bool" where
  "py_lt (Fin x) (Fin y) = (x < y)"
| "py_lt (Fin x) PInf = True"
| "py_lt NInf (Fin y) = True"
| "py_lt NInf PInf = True"
| "py_lt x y = False"

definition py_gt :: "pyfloat \<Rightarrow> pyfloat \<Rightarrow> bool" where
  "py_gt x y = py_lt y x"

text \<open>
  \<^verbatim>\<open>math.sqrt\<close> raises ValueError (math domain error) below zero and at minus infinity;
  it returns its argument at plus infinity and at a NaN.
\<close>

fun py_sqrt :: "pyfloat \<Rightarrow> error + pyfloat" where
  "py_sqrt (Fin x) = (if x < 0 then Inl ValueError else Inr (Fin (sqrt x)))"
| "py_sqrt PInf = Inr PInf"
| "py_sqrt NInf = Inl ValueError"
| "py_sqrt NaN = Inr NaN"

text \<open>Rounding to the nearest integer, a tie going to the even neighbour.\<close>

definition round_half_even :: "real \<Rightarrow> int" where
  "round_half_even x =
     (let f = \<lfloor>x\<rfloor>; d = x - of_int f
      in if d < 1 / 2 then f else if 1 / 2 < d then f + 1 else if even f then f else f + 1)"

text \<open>
  \<^verbatim>\<open>round(x)\<close> with one argument returns an int; it raises OverflowError at an infinity
  and ValueError at a NaN.
\<close>

fun py_round :: "pyfloat \<Rightarrow> error + int" where
  "py_round (Fin x) = Inr (round_half_even x)"
| "py_round PInf = Inl OverflowError"
| "py_round NInf = Inl OverflowError"
| "py_round NaN = Inl ValueError"

text \<open>
  \<^verbatim>\<open>round(x, ndigits)\<close> returns a float, and returns an infinity or a NaN unchanged.
\<close>

fun py_round_nd :: "pyfloat \<Rightarrow> nat \<Rightarrow> pyfloat" where
  "py_round_nd (Fin x) n = Fin (of_int (round_half_even (x * 10 ^ n)) / 10 ^ n)"
| "py_round_nd x n = x"

definition py_of_int :: "int \<Rightarrow> pyfloat" where
  "py_of_int k = Fin (of_int k)"

text \<open>
  \<^verbatim>\<open>sum(generator)\<close>: the accumulator starts at 0 and the terms are added from the left;
  a term whose evaluation raises ends the sum with that exception.
\<close>

fun sum_loop :: "pyfloat \<Rightarrow> (error + pyfloat) list \<Rightarrow> error + pyfloat" where
  "sum_loop acc [] = Inr acc"
| "sum_loop acc (Inl e # ts) = Inl e"
| "sum_loop acc (Inr x # ts) = sum_loop (py_add acc x) ts"

definition py_sum :: "(error + pyfloat) list \<Rightarrow> error + pyfloat" where
  "py_sum ts = sum_loop (Fin 0) ts"

section \<open>The data model\<close>

text \<open>
  The dataclasses \<^verbatim>\<open>Item\<close> (fields id, a, D, v) and \<^verbatim>\<open>JRPInstance\<close> (fields
  instance_name, A, r, items). The field names carry a prefix here, since \<open>id\<close> is a
  constant of HOL and one-letter selectors would capture the variables of every statement.
\<close>

record Item =
  item_id :: string
  item_a :: pyfloat
  item_D :: pyfloat
  item_v :: pyfloat

record JRPInstance =
  instance_name :: string
  inst_A :: pyfloat
  inst_r :: pyfloat
  inst_items :: "Item list"

text \<open>The property \<^verbatim>\<open>Item.a_over_Dv\<close>.\<close>

definition a_over_Dv :: "Item \<Rightarrow> error + pyfloat" where
  "a_over_Dv x =
     (if py_gt (py_mul (item_D x) (item_v x)) (Fin 0)
      then py_div (item_a x) (py_mul (item_D x) (item_v x))
      else Inr PInf)"

text \<open>
  One dictionary of \<^verbatim>\<open>item_results\<close>, with its six keys \<^verbatim>\<open>ID\<close>, \<^verbatim>\<open>Multiplier (m)\<close>,
  \<^verbatim>\<open>Individual Cycle (Ti)\<close>, \<^verbatim>\<open>Setup Cost ($)\<close>, \<^verbatim>\<open>Holding Cost ($)\<close> and
  \<^verbatim>\<open>Total Item Cost ($)\<close>.
\<close>

record PolicyResult =
  res_ID :: string
  res_Multiplier :: int
  res_Ti :: pyfloat
  res_Setup_Cost :: pyfloat
  res_Holding_Cost :: pyfloat
  res_Total_Item_Cost :: pyfloat

section \<open>The solver\<close>

text \<open>
  \<^verbatim>\<open>sorted(instance.items, key=lambda x: x.a_over_Dv)\<close> evaluates the key of every
  item first, in input order, and then sorts the items by their keys, comparing keys with
  \<^verbatim>\<open><\<close> only. Python promises a stable sort and says nothing more about its algorithm;
  the model is the stable insertion sort, which is what every stable sort computes when
  \<^verbatim>\<open><\<close> orders the keys (no key is a NaN).
\<close>

fun eval_all :: "(error + 'a) list \<Rightarrow> error + 'a list" where
  "eval_all [] = Inr []"
| "eval_all (Inl e # ts) = Inl e"
| "eval_all (Inr x # ts) = and_then (eval_all ts) (\<lambda>xs. Inr (x # xs))"

fun insert_by_key :: "pyfloat \<times> 'a \<Rightarrow> (pyfloat \<times> 'a) list \<Rightarrow> (pyfloat \<times> 'a) list" where
  "insert_by_key p [] = [p]"
| "insert_by_key p (q # qs) =
     (if py_lt (fst q) (fst p) then q # insert_by_key p qs else p # q # qs)"

definition sort_by_key :: "(pyfloat \<times> 'a) list \<Rightarrow> (pyfloat \<times> 'a) list" where
  "sort_by_key ps = foldr insert_by_key ps []"

definition py_sorted :: "Item list \<Rightarrow> error + Item list" where
  "py_sorted xs =
     and_then (eval_all (map a_over_Dv xs))
       (\<lambda>ks. Inr (map snd (sort_by_key (zip ks xs))))"

text \<open>
  The body of the loop of lines 31 to 33, at index \<open>i\<close>: the ratio and the multiplier
  \<^verbatim>\<open>max(1, round(math.sqrt(ratio)))\<close>.
\<close>

definition multiplier :: "JRPInstance \<Rightarrow> Item list \<Rightarrow> pyfloat \<Rightarrow> nat \<Rightarrow> error + int" where
  "multiplier inst sorted_items D1_v1 i =
     and_then (a_over_Dv (sorted_items ! i)) (\<lambda>k.
     and_then (py_div D1_v1 (py_add (inst_A inst) (item_a (sorted_items ! 0)))) (\<lambda>q.
     and_then (Inr (py_mul k q)) (\<lambda>ratio.
     and_then (py_sqrt ratio) (\<lambda>root.
     and_then (py_round root) (\<lambda>n.
     Inr (max 1 n))))))"

text \<open>
  The loop itself, over \<^verbatim>\<open>range(1, len(sorted_items))\<close>. The list \<^verbatim>\<open>m_values\<close>
  has the length of \<^verbatim>\<open>sorted_items\<close> throughout, so every index the loop writes and
  every index read later is in range.
\<close>

fun m_loop :: "JRPInstance \<Rightarrow> Item list \<Rightarrow> pyfloat \<Rightarrow> nat list \<Rightarrow> int list \<Rightarrow> error + int list" where
  "m_loop inst sorted_items D1_v1 [] m_values = Inr m_values"
| "m_loop inst sorted_items D1_v1 (i # rest) m_values =
     and_then (multiplier inst sorted_items D1_v1 i) (\<lambda>m.
     m_loop inst sorted_items D1_v1 rest (m_values[i := m]))"

text \<open>
  The body of the loop of lines 41 to 52: the dictionary appended for one item, from the
  item, its multiplier \<^verbatim>\<open>m_values[i]\<close> and \<^verbatim>\<open>T_star\<close>.
\<close>

definition item_record :: "JRPInstance \<Rightarrow> pyfloat \<Rightarrow> int \<Rightarrow> Item \<Rightarrow> error + PolicyResult" where
  "item_record inst T_star m item =
     and_then (Inr (py_mul (py_of_int m) T_star)) (\<lambda>ti.
     and_then (py_div (py_mul (py_mul (py_mul (item_D item) ti) (item_v item)) (inst_r inst)) (Fin 2))
       (\<lambda>h_cost.
     and_then (py_div (item_a item) ti) (\<lambda>s_cost.
     Inr \<lparr>res_ID = item_id item,
          res_Multiplier = m,
          res_Ti = py_round_nd ti 5,
          res_Setup_Cost = py_round_nd s_cost 2,
          res_Holding_Cost = py_round_nd h_cost 2,
          res_Total_Item_Cost = py_round_nd (py_add s_cost h_cost) 2\<rparr>)))"

text \<open>The loop itself, over \<^verbatim>\<open>enumerate(sorted_items)\<close>.\<close>

fun item_loop :: "JRPInstance \<Rightarrow> pyfloat \<Rightarrow> int list \<Rightarrow> (nat \<times> Item) list \<Rightarrow> PolicyResult list
    \<Rightarrow> error + PolicyResult list" where
  "item_loop inst T_star m_values [] item_results = Inr item_results"
| "item_loop inst T_star m_values ((i, item) # rest) item_results =
     and_then (item_record inst T_star (m_values ! i) item) (\<lambda>res.
     item_loop inst T_star m_values rest (item_results @ [res]))"

text \<open>
  \<^verbatim>\<open>find_optimal_policy\<close>, on an instance given by value. \<^verbatim>\<open>sorted_items[0]\<close>
  raises IndexError on the empty list.
\<close>

definition find_optimal_policy :: "JRPInstance \<Rightarrow> error + pyfloat \<times> pyfloat \<times> PolicyResult list" where
  "find_optimal_policy inst =
     and_then (py_sorted (inst_items inst)) (\<lambda>sorted_items.
     and_then (Inr (replicate (length sorted_items) (1::int))) (\<lambda>m_values.
     and_then (if sorted_items = [] then Inl IndexError
               else Inr (py_mul (item_D (sorted_items ! 0)) (item_v (sorted_items ! 0)))) (\<lambda>D1_v1.
     and_then (m_loop inst sorted_items D1_v1 [1..<length sorted_items] m_values) (\<lambda>m_values.
     and_then (py_sum (map (\<lambda>(i, item). py_div (item_a item) (py_of_int (m_values ! i)))
                           (enumerate 0 sorted_items))) (\<lambda>sum_a.
     and_then (Inr (py_mul (Fin 2) (py_add (inst_A inst) sum_a))) (\<lambda>num.
     and_then (py_sum (map (\<lambda>(i, item).
                              Inr (py_mul (py_mul (py_of_int (m_values ! i)) (item_D item)) (item_v item)))
                           (enumerate 0 sorted_items))) (\<lambda>sum_mDv.
     and_then (Inr (py_mul (inst_r inst) sum_mDv)) (\<lambda>den.
     and_then (py_div num den) (\<lambda>q.
     and_then (py_sqrt q) (\<lambda>T_star.
     and_then (item_loop inst T_star m_values (enumerate 0 sorted_items) []) (\<lambda>item_results.
     and_then (py_div (inst_A inst) T_star) (\<lambda>major.
     and_then (py_sum (map (\<lambda>res. Inr (res_Total_Item_Cost res)) item_results)) (\<lambda>sum_total.
     Inr (T_star, py_add major sum_total, item_results))))))))))))))"

section \<open>Objects and references\<close>









section \<open>Example instances\<close>

text \<open>
  Items and instances on which the solver is evaluated below. Their numbers are chosen so
  that every square root is rational.
\<close>

definition item_X :: Item where
  "item_X = \<lparr>item_id = ''X'', item_a = Fin 2, item_D = Fin 2, item_v = Fin 2\<rparr>"

definition item_Y :: Item where
  "item_Y = \<lparr>item_id = ''Y'', item_a = Fin 8, item_D = Fin 1, item_v = Fin 1\<rparr>"

definition item_Z :: Item where
  "item_Z = \<lparr>item_id = ''Z'', item_a = Fin 1, item_D = Fin 2, item_v = Fin 1\<rparr>"

text \<open>An item without demand.\<close>

definition item_B :: Item where
  "item_B = \<lparr>item_id = ''B'', item_a = Fin 5, item_D = Fin 0, item_v = Fin 10\<rparr>"

definition two_items :: JRPInstance where
  "two_items = \<lparr>instance_name = ''two'', inst_A = Fin 6, inst_r = Fin 1,
                 inst_items = [item_Y, item_X]\<rparr>"

definition four_items :: JRPInstance where
  "four_items = \<lparr>instance_name = ''four'', inst_A = Fin 6, inst_r = Fin 1,
                  inst_items = [item_B, item_Y, item_X, item_Z]\<rparr>"



text \<open>
  The scenario of an item without demand beside an ordinary one, and three malformed
  instances: no items, a zero \<open>A + a[0]\<close>, and a zero holding rate.
\<close>

definition zero_demand :: JRPInstance where
  "zero_demand = \<lparr>instance_name = ''zero demand'', inst_A = Fin 100, inst_r = Fin (1 / 5),
     inst_items = [\<lparr>item_id = ''X'', item_a = Fin 50, item_D = Fin 1000, item_v = Fin 10\<rparr>,
                   item_B]\<rparr>"




section \<open>Basic facts\<close>

subsection \<open>Sequencing and the float operations\<close>

lemma and_then_Inr [simp]: "and_then (Inr x) f = f x"
  by (simp add: and_then_def)

lemma and_then_Inl [simp]: "and_then (Inl e) f = Inl e"
  by (simp add: and_then_def)

lemma and_then_eq_Inr: "and_then m f = Inr y \<longleftrightarrow> (\<exists>x. m = Inr x \<and> f x = Inr y)"
  by (cases m) simp_all

lemma py_div_zero: "py_div x (Fin 0) = Inl ZeroDivisionError"
  by (cases x) simp_all

lemma py_mul_eq_Fin: "py_mul x y = Fin c \<Longrightarrow> \<exists>a b. x = Fin a \<and> y = Fin b \<and> c = a * b"
  by (cases x; cases y) (auto simp: signed_inf_def split: if_splits)

lemma py_sqrt_eq_Fin: "py_sqrt x = Inr (Fin c) \<Longrightarrow> \<exists>a. x = Fin a"
  by (cases x) (auto split: if_splits)

lemma py_round_Inr: "py_round x = Inr n \<Longrightarrow> \<exists>a. x = Fin a"
  by (cases x) auto


lemma py_mul_zero_demand:
  assumes "py_mul D v = Fin 0"
  shows "py_mul (py_mul (py_of_int 1) D) v = Fin 0"
proof -
  from py_mul_eq_Fin [OF assms] obtain a b where "D = Fin a" "v = Fin b" "a * b = 0" by auto
  then show ?thesis by (simp add: py_of_int_def)
qed

lemma round_half_even_of_int [simp]: "round_half_even (of_int k) = k"
  by (simp add: round_half_even_def)

lemma round_half_even_numeral [simp]: "round_half_even (numeral k) = numeral k"
  using round_half_even_of_int [of "numeral k"] by simp

text \<open>Rounding moves a number by at most one half.\<close>

lemma round_half_even_nearest: "\<bar>of_int (round_half_even x) - x\<bar> \<le> 1 / 2"
  unfolding round_half_even_def Let_def by (auto; linarith)




subsection \<open>The key\<close>

text \<open>The guard of \<^verbatim>\<open>a_over_Dv\<close> excludes the zero divisor: the property never raises.\<close>

lemma a_over_Dv_returns: "\<exists>k. a_over_Dv x = Inr k"
  by (cases "item_D x"; cases "item_v x"; cases "item_a x")
     (auto simp: a_over_Dv_def py_gt_def signed_inf_def)

lemma a_over_Dv_projr: "a_over_Dv x = Inr (projr (a_over_Dv x))"
  using a_over_Dv_returns [of x] by auto

lemma a_over_Dv_sentinel:
  "\<not> py_gt (py_mul (item_D x) (item_v x)) (Fin 0) \<Longrightarrow> a_over_Dv x = Inr PInf"
  by (simp add: a_over_Dv_def)

lemma a_over_Dv_zero_demand:
  "py_mul (item_D x) (item_v x) = Fin 0 \<Longrightarrow> a_over_Dv x = Inr PInf"
  by (simp add: a_over_Dv_def py_gt_def)

lemma a_over_Dv_finite: "item_a x = Fin c \<Longrightarrow> a_over_Dv x \<noteq> Inr NaN"
  by (cases "item_D x"; cases "item_v x")
     (auto simp: a_over_Dv_def py_gt_def signed_inf_def)

lemma eval_all_keys: "eval_all (map a_over_Dv xs) = Inr (map (\<lambda>x. projr (a_over_Dv x)) xs)"
proof (induction xs)
  case Nil
  show ?case by simp
next
  case (Cons x xs)
  have "eval_all (map a_over_Dv (x # xs)) =
          eval_all (Inr (projr (a_over_Dv x)) # map a_over_Dv xs)"
    using a_over_Dv_projr [of x] by simp
  with Cons show ?case by simp
qed

lemma zip_keys: "zip (map f xs) xs = map (\<lambda>x. (f x, x)) xs"
  by (induction xs) simp_all

subsection \<open>The order of the keys and the sort\<close>

lemma py_lt_irrefl: "\<not> py_lt x x"
  by (cases x) simp_all

lemma py_lt_asym: "py_lt x y \<Longrightarrow> \<not> py_lt y x"
  by (cases x; cases y) simp_all

lemma py_lt_total: "x \<noteq> NaN \<Longrightarrow> y \<noteq> NaN \<Longrightarrow> py_lt x y \<or> x = y \<or> py_lt y x"
  by (cases x; cases y) auto

lemma py_not_lt_trans:
  "y \<noteq> NaN \<Longrightarrow> \<not> py_lt y x \<Longrightarrow> \<not> py_lt z y \<Longrightarrow> \<not> py_lt z x"
  by (cases x; cases y; cases z) simp_all

lemma set_insert_by_key: "set (insert_by_key p qs) = insert p (set qs)"
  by (induction qs) auto

lemma mset_insert_by_key: "mset (insert_by_key p qs) = add_mset p (mset qs)"
  by (induction qs) auto

lemma mset_sort_by_key: "mset (sort_by_key ps) = mset ps"
  by (induction ps) (simp_all add: sort_by_key_def mset_insert_by_key)

lemma set_sort_by_key: "set (sort_by_key ps) = set ps"
  using mset_sort_by_key [of ps] by (metis set_mset_mset)

lemma length_sort_by_key: "length (sort_by_key ps) = length ps"
  using mset_sort_by_key [of ps] by (metis size_mset)

lemma sorted_insert_by_key:
  assumes "sorted_wrt (\<lambda>p q. \<not> py_lt (fst q) (fst p)) qs"
    and "\<forall>q\<in>set qs. fst q \<noteq> NaN"
  shows "sorted_wrt (\<lambda>p q. \<not> py_lt (fst q) (fst p)) (insert_by_key p qs)"
  using assms
proof (induction qs)
  case Nil
  show ?case by simp
next
  case (Cons q qs)
  show ?case
  proof (cases "py_lt (fst q) (fst p)")
    case True
    with Cons show ?thesis
      by (auto simp: set_insert_by_key dest: py_lt_asym)
  next
    case False
    have "\<not> py_lt (fst x) (fst p)" if "x \<in> set qs" for x
      using that Cons.prems False py_not_lt_trans [of "fst q" "fst p" "fst x"] by auto
    with Cons.prems False show ?thesis by auto
  qed
qed

lemma sorted_sort_by_key:
  "\<forall>q\<in>set ps. fst q \<noteq> NaN \<Longrightarrow>
     sorted_wrt (\<lambda>p q. \<not> py_lt (fst q) (fst p)) (sort_by_key ps)"
proof (induction ps)
  case Nil
  show ?case by (simp add: sort_by_key_def)
next
  case (Cons p ps)
  have "sorted_wrt (\<lambda>p q. \<not> py_lt (fst q) (fst p)) (insert_by_key p (sort_by_key ps))"
    using Cons by (intro sorted_insert_by_key) (simp_all add: set_sort_by_key)
  then show ?case by (simp add: sort_by_key_def)
qed

text \<open>
  Stability: an insertion passes strictly smaller keys only, so it never overtakes an
  element with its own key.
\<close>

lemma filter_insert_by_key:
  "filter (\<lambda>q. fst q = k) (insert_by_key p qs) =
     (if fst p = k then p # filter (\<lambda>q. fst q = k) qs else filter (\<lambda>q. fst q = k) qs)"
  by (induction qs) (auto simp: py_lt_irrefl)

lemma stable_sort_by_key:
  "filter (\<lambda>q. fst q = k) (sort_by_key ps) = filter (\<lambda>q. fst q = k) ps"
  by (induction ps) (simp_all add: sort_by_key_def filter_insert_by_key)

subsection \<open>The ranking\<close>

lemma py_sorted_eq:
  "py_sorted xs = Inr (map snd (sort_by_key (map (\<lambda>x. (projr (a_over_Dv x), x)) xs)))"
  by (simp add: py_sorted_def eval_all_keys zip_keys)

lemma py_sorted_mset: "py_sorted xs = Inr s \<Longrightarrow> mset s = mset xs"
proof -
  assume "py_sorted xs = Inr s"
  then have "s = map snd (sort_by_key (map (\<lambda>x. (projr (a_over_Dv x), x)) xs))"
    by (simp add: py_sorted_eq)
  then have "mset s = image_mset snd (mset (sort_by_key (map (\<lambda>x. (projr (a_over_Dv x), x)) xs)))"
    by simp
  also have "\<dots> = mset xs"
    by (simp add: mset_sort_by_key image_mset.compositionality comp_def)
  finally show ?thesis .
qed

lemma py_sorted_ascending:
  assumes "py_sorted xs = Inr s" and "\<forall>x\<in>set xs. a_over_Dv x \<noteq> Inr NaN"
  shows "sorted_wrt (\<lambda>x y. \<not> py_lt (projr (a_over_Dv y)) (projr (a_over_Dv x))) s"
proof -
  let ?ps = "sort_by_key (map (\<lambda>x. (projr (a_over_Dv x), x)) xs)"
  have s: "s = map snd ?ps" using assms(1) by (simp add: py_sorted_eq)
  have "projr (a_over_Dv x) \<noteq> NaN" if "x \<in> set xs" for x
    using that assms(2) a_over_Dv_projr [of x] by metis
  then have "\<forall>q\<in>set (map (\<lambda>x. (projr (a_over_Dv x), x)) xs). fst q \<noteq> NaN"
    by auto
  then have "sorted_wrt (\<lambda>p q. \<not> py_lt (fst q) (fst p)) ?ps"
    by (rule sorted_sort_by_key)
  moreover have "\<forall>p\<in>set ?ps. fst p = projr (a_over_Dv (snd p))"
    by (auto simp: set_sort_by_key)
  ultimately have
    "sorted_wrt (\<lambda>p q. \<not> py_lt (projr (a_over_Dv (snd q))) (projr (a_over_Dv (snd p)))) ?ps"
    by (simp add: sorted_wrt_iff_nth_less)
  then show ?thesis
    unfolding s by (simp add: sorted_wrt_map)
qed

lemma py_sorted_stable:
  assumes "py_sorted xs = Inr s"
  shows "filter (\<lambda>x. projr (a_over_Dv x) = k) s = filter (\<lambda>x. projr (a_over_Dv x) = k) xs"
proof -
  let ?kp = "\<lambda>x. (projr (a_over_Dv x), x)"
  let ?ps = "sort_by_key (map ?kp xs)"
  have s: "s = map snd ?ps" using assms by (simp add: py_sorted_eq)
  have keys: "\<forall>p\<in>set ?ps. fst p = projr (a_over_Dv (snd p))"
    by (auto simp: set_sort_by_key)
  have "filter (\<lambda>x. projr (a_over_Dv x) = k) s =
          map snd (filter (\<lambda>p. projr (a_over_Dv (snd p)) = k) ?ps)"
    unfolding s by (simp add: filter_map comp_def)
  also have "filter (\<lambda>p. projr (a_over_Dv (snd p)) = k) ?ps = filter (\<lambda>p. fst p = k) ?ps"
    using keys by (intro filter_cong) auto
  also have "\<dots> = filter (\<lambda>p. fst p = k) (map ?kp xs)"
    by (rule stable_sort_by_key)
  also have "map snd \<dots> = filter (\<lambda>x. projr (a_over_Dv x) = k) xs"
    by (simp add: filter_map comp_def)
  finally show ?thesis .
qed

subsection \<open>The two loops\<close>

lemma m_loop_length: "m_loop inst s d ixs ms = Inr ms' \<Longrightarrow> length ms' = length ms"
  by (induction ixs arbitrary: ms) (auto simp: and_then_eq_Inr)

lemma m_loop_other: "m_loop inst s d ixs ms = Inr ms' \<Longrightarrow> j \<notin> set ixs \<Longrightarrow> ms' ! j = ms ! j"
  by (induction ixs arbitrary: ms) (auto simp: and_then_eq_Inr)

lemma m_loop_at:
  "m_loop inst s d ixs ms = Inr ms' \<Longrightarrow> distinct ixs \<Longrightarrow> i \<in> set ixs \<Longrightarrow> i < length ms \<Longrightarrow>
     multiplier inst s d i = Inr (ms' ! i)"
proof (induction ixs arbitrary: ms)
  case Nil
  then show ?case by simp
next
  case (Cons j ixs)
  from Cons.prems(1) obtain m where m: "multiplier inst s d j = Inr m"
    and rest: "m_loop inst s d ixs (ms[j := m]) = Inr ms'"
    by (auto simp: and_then_eq_Inr)
  show ?case
  proof (cases "i = j")
    case True
    with Cons.prems have "j \<notin> set ixs" by simp
    from m_loop_other [OF rest this] True Cons.prems(4) m show ?thesis by simp
  next
    case False
    with Cons.prems have "i \<in> set ixs" "distinct ixs" by simp_all
    from Cons.IH [OF rest this(2) this(1)] Cons.prems(4) show ?thesis by simp
  qed
qed


text \<open>A multiplier is computed only from a finite key: an infinite one ends in \<^verbatim>\<open>round\<close>.\<close>

lemma multiplier_finite_key:
  assumes "multiplier inst s d i = Inr m"
  shows "\<exists>c. a_over_Dv (s ! i) = Inr (Fin c)"
proof -
  from assms obtain k q root n where k: "a_over_Dv (s ! i) = Inr k"
    and root: "py_sqrt (py_mul k q) = Inr root" and n: "py_round root = Inr n"
    by (auto simp: multiplier_def and_then_eq_Inr)
  from py_round_Inr [OF n] obtain a where "root = Fin a" by blast
  with root py_sqrt_eq_Fin obtain b where "py_mul k q = Fin b" by blast
  from py_mul_eq_Fin [OF this] k show ?thesis by auto
qed



lemma item_record_fields:
  "item_record inst T m item = Inr res \<Longrightarrow> res_ID res = item_id item \<and> res_Multiplier res = m"
  by (auto simp: item_record_def and_then_eq_Inr)


lemma item_loop_result:
  "item_loop inst T ms es acc = Inr rs \<Longrightarrow>
     \<exists>new. rs = acc @ new \<and> length new = length es \<and>
       (\<forall>j<length es. item_record inst T (ms ! fst (es ! j)) (snd (es ! j)) = Inr (new ! j))"
proof (induction es arbitrary: acc)
  case Nil
  then show ?case by simp
next
  case (Cons e es)
  obtain i item where e: "e = (i, item)" by (cases e)
  from Cons.prems e obtain res where res: "item_record inst T (ms ! i) item = Inr res"
    and rest: "item_loop inst T ms es (acc @ [res]) = Inr rs"
    by (auto simp: and_then_eq_Inr)
  from Cons.IH [OF rest] obtain new where new: "rs = (acc @ [res]) @ new" "length new = length es"
    "\<forall>j<length es. item_record inst T (ms ! fst (es ! j)) (snd (es ! j)) = Inr (new ! j)"
    by blast
  have "\<forall>j<length (e # es).
          item_record inst T (ms ! fst ((e # es) ! j)) (snd ((e # es) ! j)) = Inr ((res # new) ! j)"
    using new(3) res e by (auto simp: nth_Cons split: nat.splits)
  with new(1,2) show ?case by (intro exI [of _ "res # new"]) simp
qed


subsection \<open>The steps of a normal return\<close>

text \<open>What a normal return of the solver says about each of its steps.\<close>

lemma find_optimal_policy_Inr:
  assumes "find_optimal_policy inst = Inr (T, total_cost, results)"
  shows "\<exists>s ms sum_a sum_mDv q major sum_total.
      py_sorted (inst_items inst) = Inr s \<and> s \<noteq> [] \<and>
      m_loop inst s (py_mul (item_D (s ! 0)) (item_v (s ! 0))) [1..<length s]
        (replicate (length s) 1) = Inr ms \<and>
      py_sum (map (\<lambda>(i, item). py_div (item_a item) (py_of_int (ms ! i))) (enumerate 0 s)) = Inr sum_a \<and>
      py_sum (map (\<lambda>(i, item). Inr (py_mul (py_mul (py_of_int (ms ! i)) (item_D item)) (item_v item)))
                  (enumerate 0 s)) = Inr sum_mDv \<and>
      py_div (py_mul (Fin 2) (py_add (inst_A inst) sum_a)) (py_mul (inst_r inst) sum_mDv) = Inr q \<and>
      py_sqrt q = Inr T \<and>
      item_loop inst T ms (enumerate 0 s) [] = Inr results \<and>
      py_div (inst_A inst) T = Inr major \<and>
      py_sum (map (\<lambda>res. Inr (res_Total_Item_Cost res)) results) = Inr sum_total \<and>
      total_cost = py_add major sum_total"
  using assms unfolding find_optimal_policy_def
  by (auto simp: and_then_eq_Inr split: if_splits)

lemma find_optimal_policy_records:
  assumes "find_optimal_policy inst = Inr (T, total_cost, results)"
  shows "\<exists>s ms. py_sorted (inst_items inst) = Inr s \<and> s \<noteq> [] \<and>
      m_loop inst s (py_mul (item_D (s ! 0)) (item_v (s ! 0))) [1..<length s]
        (replicate (length s) 1) = Inr ms \<and>
      length ms = length s \<and> length results = length s \<and>
      (\<forall>i<length s. item_record inst T (ms ! i) (s ! i) = Inr (results ! i))"
proof -
  from find_optimal_policy_Inr [OF assms] obtain s ms where
    s: "py_sorted (inst_items inst) = Inr s" "s \<noteq> []" and
    ms: "m_loop inst s (py_mul (item_D (s ! 0)) (item_v (s ! 0))) [1..<length s]
           (replicate (length s) 1) = Inr ms" and
    loop: "item_loop inst T ms (enumerate 0 s) [] = Inr results"
    by blast
  from item_loop_result [OF loop] have len: "length results = length s"
    and recs: "\<forall>j<length s. item_record inst T (ms ! fst (enumerate 0 s ! j))
                  (snd (enumerate 0 s ! j)) = Inr (results ! j)"
    by auto
  from recs have "\<forall>i<length s. item_record inst T (ms ! i) (s ! i) = Inr (results ! i)"
    by (simp add: nth_enumerate_eq)
  with s ms len m_loop_length [OF ms] show ?thesis by auto
qed




subsection \<open>Where the solver raises\<close>




text \<open>
  An item with \<open>D * v = 0\<close> makes the solver raise, wherever the ranking puts it: at a
  rank \<open>i \<ge> 1\<close> its infinite key reaches \<^verbatim>\<open>round\<close>; alone, it makes \<open>den\<close> zero. (The
  keys are supposed not to be NaN and \<open>r\<close> finite.)
\<close>

lemma zero_demand_never_returns:
  assumes x: "x \<in> set (inst_items inst)" "py_mul (item_D x) (item_v x) = Fin 0"
    and keys: "\<forall>y\<in>set (inst_items inst). a_over_Dv y \<noteq> Inr NaN"
    and r: "inst_r inst = Fin c"
  shows "\<exists>e. find_optimal_policy inst = Inl e"
proof (cases "find_optimal_policy inst")
  case (Inl e)
  then show ?thesis by blast
next
  case (Inr out)
  obtain T total_cost results where "out = (T, total_cost, results)" by (cases out)
  with Inr have "find_optimal_policy inst = Inr (T, total_cost, results)" by simp
  from find_optimal_policy_Inr [OF this] obtain s ms sum_a sum_mDv q where
    s: "py_sorted (inst_items inst) = Inr s" "s \<noteq> []" and
    ms: "m_loop inst s (py_mul (item_D (s ! 0)) (item_v (s ! 0))) [1..<length s]
           (replicate (length s) 1) = Inr ms" and
    sum_mDv: "py_sum (map (\<lambda>(i, item).
                Inr (py_mul (py_mul (py_of_int (ms ! i)) (item_D item)) (item_v item)))
                (enumerate 0 s)) = Inr sum_mDv" and
    q: "py_div (py_mul (Fin 2) (py_add (inst_A inst) sum_a)) (py_mul (inst_r inst) sum_mDv) = Inr q"
    by blast
  let ?key = "\<lambda>y. projr (a_over_Dv y)"
  have set_s: "set s = set (inst_items inst)"
    using py_sorted_mset [OF s(1)] by (metis set_mset_mset)
  with x(1) have "x \<in> set s" by simp
  then obtain j where j: "j < length s" "s ! j = x"
    by (auto simp: in_set_conv_nth)
  have key_x: "?key x = PInf"
    using x(2) by (simp add: a_over_Dv_zero_demand)
  show ?thesis
  proof (cases "2 \<le> length s")
    case True
    let ?l = "length s - 1"
    have l: "1 \<le> ?l" "?l < length s" using True by simp_all
    have "?key (s ! ?l) = PInf"
    proof (cases "j = ?l")
      case True
      with j key_x show ?thesis by simp
    next
      case False
      with j l have "j < ?l" by simp
      with py_sorted_ascending [OF s(1) keys] l(2)
      have "\<not> py_lt (?key (s ! ?l)) (?key (s ! j))"
        by (simp add: sorted_wrt_iff_nth_less)
      moreover have "?key (s ! ?l) \<noteq> NaN"
        using keys set_s l(2) a_over_Dv_projr [of "s ! ?l"] by (metis nth_mem)
      ultimately show ?thesis
        using j(2) key_x by (cases "?key (s ! ?l)") simp_all
    qed
    then have inf: "a_over_Dv (s ! ?l) = Inr PInf"
      using a_over_Dv_projr [of "s ! ?l"] by simp
    have "multiplier inst s (py_mul (item_D (s ! 0)) (item_v (s ! 0))) ?l = Inr (ms ! ?l)"
      using m_loop_at [OF ms, of ?l] l by simp
    from multiplier_finite_key [OF this] inf show ?thesis by simp
  next
    case False
    with s(2) have "length s = 1" by (cases s) (auto simp: not_le)
    with j have sx: "s = [x]" by (cases s) auto
    from ms sx have "ms = [1]" by simp
    with sum_mDv sx x(2) have "sum_mDv = Fin 0"
      by (simp add: py_sum_def enumerate_eq_zip py_mul_zero_demand)
    with q r show ?thesis by (simp add: py_div_zero)
  qed
qed

subsection \<open>Reading through references\<close>






subsection \<open>Evaluation of the examples\<close>

lemma upt_1_2: "[1..<2] = [1::nat]"
  by (simp add: upt_conv_Cons)

lemma two_items_sorted: "py_sorted (inst_items two_items) = Inr [item_X, item_Y]"
  by (simp add: two_items_def item_X_def item_Y_def py_sorted_def a_over_Dv_def py_gt_def
        sort_by_key_def)

lemma two_items_result:
  "find_optimal_policy two_items = Inr (Fin 2, Fin 12,
     [\<lparr>res_ID = ''X'', res_Multiplier = 1, res_Ti = Fin 2, res_Setup_Cost = Fin 1,
        res_Holding_Cost = Fin 4, res_Total_Item_Cost = Fin 5\<rparr>,
      \<lparr>res_ID = ''Y'', res_Multiplier = 2, res_Ti = Fin 4, res_Setup_Cost = Fin 2,
        res_Holding_Cost = Fin 2, res_Total_Item_Cost = Fin 4\<rparr>])"
  unfolding find_optimal_policy_def two_items_sorted
  by (simp add: two_items_def item_X_def item_Y_def multiplier_def a_over_Dv_def py_gt_def
        upt_1_2 enumerate_eq_zip py_sum_def py_of_int_def item_record_def)

lemma four_items_sorted:
  "py_sorted (inst_items four_items) = Inr [item_X, item_Z, item_Y, item_B]"
  by (simp add: four_items_def item_X_def item_Y_def item_Z_def item_B_def py_sorted_def
        a_over_Dv_def py_gt_def sort_by_key_def)




section \<open>The claims\<close>







text \<open>
  C4. The solver ranks the items in ascending order of \<open>a_over_Dv\<close>, the key being plus
  infinity when \<open>D * v\<close> is not positive; the sort is stable, so items with equal keys
  keep their input order; and an item with \<open>D * v = 0\<close> is ranked after every item with
  a finite key, whatever its \<open>a\<close>. The order of the keys is that of \<^verbatim>\<open><\<close>, which
  orders every float but a NaN: the statement is for the instances none of whose keys is
  a NaN, as is the case whenever every \<open>a\<close> is finite (lemma \<open>a_over_Dv_finite\<close>).
\<close>

theorem ranking_ascending_stable:
  assumes "\<forall>x\<in>set (inst_items inst). a_over_Dv x \<noteq> Inr NaN"
  shows "\<exists>s. py_sorted (inst_items inst) = Inr s \<and> mset s = mset (inst_items inst) \<and>
    (\<forall>i j. i < j \<and> j < length s \<longrightarrow>
       py_lt (projr (a_over_Dv (s ! i))) (projr (a_over_Dv (s ! j))) \<or>
       a_over_Dv (s ! i) = a_over_Dv (s ! j)) \<and>
    (\<forall>k. filter (\<lambda>x. a_over_Dv x = Inr k) s = filter (\<lambda>x. a_over_Dv x = Inr k) (inst_items inst)) \<and>
    (\<forall>x. \<not> py_gt (py_mul (item_D x) (item_v x)) (Fin 0) \<longrightarrow> a_over_Dv x = Inr PInf) \<and>
    (\<forall>i j. i < length s \<and> j < length s \<and> (\<exists>c. a_over_Dv (s ! i) = Inr (Fin c)) \<and>
       py_mul (item_D (s ! j)) (item_v (s ! j)) = Fin 0 \<longrightarrow> i < j)"
proof -
  let ?key = "\<lambda>x. projr (a_over_Dv x)"
  obtain s where s: "py_sorted (inst_items inst) = Inr s"
    by (simp add: py_sorted_eq)
  have perm: "mset s = mset (inst_items inst)"
    using s by (rule py_sorted_mset)
  have key_eq: "(a_over_Dv x = Inr k) = (?key x = k)" for x k
    using a_over_Dv_projr [of x] by auto
  have no_nan: "?key x \<noteq> NaN" if "x \<in> set s" for x
  proof -
    from that perm have "x \<in> set (inst_items inst)" by (metis set_mset_mset)
    with assms show ?thesis by (simp add: key_eq)
  qed
  have asc: "\<not> py_lt (?key (s ! j)) (?key (s ! i))" if "i < j" "j < length s" for i j
    using py_sorted_ascending [OF s assms] that by (simp add: sorted_wrt_iff_nth_less)
  have ordered: "py_lt (?key (s ! i)) (?key (s ! j)) \<or> a_over_Dv (s ! i) = a_over_Dv (s ! j)"
    if "i < j" "j < length s" for i j
  proof -
    have "?key (s ! i) \<noteq> NaN" "?key (s ! j) \<noteq> NaN"
      using that by (simp_all add: no_nan)
    from py_lt_total [OF this] asc [OF that]
    have "py_lt (?key (s ! i)) (?key (s ! j)) \<or> ?key (s ! i) = ?key (s ! j)" by blast
    then show ?thesis using a_over_Dv_projr by metis
  qed
  have stable: "filter (\<lambda>x. a_over_Dv x = Inr k) s = filter (\<lambda>x. a_over_Dv x = Inr k) (inst_items inst)"
    for k
    using py_sorted_stable [OF s, of k] by (simp add: key_eq)
  have last: "i < j" if "i < length s" "j < length s" "a_over_Dv (s ! i) = Inr (Fin c)"
    "py_mul (item_D (s ! j)) (item_v (s ! j)) = Fin 0" for i j c
  proof (rule ccontr)
    assume "\<not> i < j"
    have kj: "?key (s ! j) = PInf" using that(4) by (simp add: a_over_Dv_zero_demand)
    have ki: "?key (s ! i) = Fin c" using that(3) by simp
    from kj ki have "i \<noteq> j" by auto
    with \<open>\<not> i < j\<close> have "j < i" by simp
    from asc [OF this that(1)] kj ki show False by simp
  qed
  show ?thesis
    using s perm ordered stable a_over_Dv_sentinel last by blast
qed

theorem ranking_ascending_stable_witness:
  "a_over_Dv item_B = Inr PInf \<and> a_over_Dv item_Y = Inr (Fin 8) \<and>
   a_over_Dv item_X = Inr (Fin (1 / 2)) \<and> a_over_Dv item_Z = Inr (Fin (1 / 2)) \<and>
   inst_items four_items = [item_B, item_Y, item_X, item_Z] \<and>
   py_sorted (inst_items four_items) = Inr [item_X, item_Z, item_Y, item_B] \<and>
   filter (\<lambda>x. a_over_Dv x = Inr (Fin (1 / 2))) [item_X, item_Z, item_Y, item_B] = [item_X, item_Z]"
proof -
  have keys: "a_over_Dv item_B = Inr PInf" "a_over_Dv item_X = Inr (Fin (1 / 2))"
    "a_over_Dv item_Z = Inr (Fin (1 / 2))" "a_over_Dv item_Y = Inr (Fin 8)"
    by (simp_all add: item_X_def item_Y_def item_Z_def item_B_def a_over_Dv_def py_gt_def)
  have h: "\<forall>x\<in>set (inst_items four_items). a_over_Dv x \<noteq> Inr NaN"
    by (simp add: four_items_def keys)
  from ranking_ascending_stable [OF h] four_items_sorted
  have "filter (\<lambda>x. a_over_Dv x = Inr (Fin (1 / 2))) [item_X, item_Z, item_Y, item_B] =
        filter (\<lambda>x. a_over_Dv x = Inr (Fin (1 / 2))) (inst_items four_items)"
    by auto
  then have "filter (\<lambda>x. a_over_Dv x = Inr (Fin (1 / 2))) [item_X, item_Z, item_Y, item_B] =
               [item_X, item_Z]"
    by (simp add: four_items_def keys)
  with keys four_items_sorted show ?thesis by (simp add: four_items_def)
qed



text \<open>
  C6. The claim is that an item with \<open>D * v = 0\<close> never makes the solver crash, the
  infinite key guarding it, and that every returned multiplier is at least 1. The
  multipliers of a normal return are at least 1 (lemma \<open>returned_multipliers_ge_1\<close>).
  But the infinite key guards the division of \<open>a_over_Dv\<close> only: ranked after the
  reference item, the item of the scenario of the specification takes
  \<^verbatim>\<open>round(math.sqrt(inf))\<close>, which raises OverflowError.
\<close>

theorem zero_demand_item_raises:
  "find_optimal_policy zero_demand = Inl OverflowError"
  unfolding find_optimal_policy_def
  by (simp add: zero_demand_def item_B_def py_sorted_def sort_by_key_def multiplier_def
        a_over_Dv_def py_gt_def upt_1_2 signed_inf_def)








text \<open>
  C10. Whenever the solver returns normally, the result list has exactly one record per
  input item: its length is the number of input items, the record at position \<open>i\<close>
  carries the id of the item ranked \<open>i\<close>, and the multiset of the ids in the output is the
  multiset of the ids in the input, duplicates included.
\<close>

theorem results_one_record_per_item:
  assumes "find_optimal_policy inst = Inr (T, total_cost, results)"
  shows "\<exists>s. py_sorted (inst_items inst) = Inr s \<and>
     length results = length (inst_items inst) \<and>
     (\<forall>i<length results. res_ID (results ! i) = item_id (s ! i)) \<and>
     mset (map res_ID results) = mset (map item_id (inst_items inst))"
proof -
  from find_optimal_policy_records [OF assms] obtain s ms where
    s: "py_sorted (inst_items inst) = Inr s" and len: "length results = length s" and
    recs: "\<forall>i<length s. item_record inst T (ms ! i) (s ! i) = Inr (results ! i)"
    by blast
  have ids: "\<forall>i<length results. res_ID (results ! i) = item_id (s ! i)"
    using recs len item_record_fields by fastforce
  then have "map res_ID results = map item_id s"
    using len by (simp add: list_eq_iff_nth_eq)
  moreover have perm: "mset s = mset (inst_items inst)"
    using s by (rule py_sorted_mset)
  ultimately have "mset (map res_ID results) = mset (map item_id (inst_items inst))"
    by (metis mset_map)
  moreover have "length s = length (inst_items inst)"
    using perm by (metis size_mset)
  ultimately show ?thesis using s len ids by auto
qed

theorem results_one_record_per_item_witness:
  "find_optimal_policy two_items = Inr (Fin 2, Fin 12,
     [\<lparr>res_ID = ''X'', res_Multiplier = 1, res_Ti = Fin 2, res_Setup_Cost = Fin 1,
        res_Holding_Cost = Fin 4, res_Total_Item_Cost = Fin 5\<rparr>,
      \<lparr>res_ID = ''Y'', res_Multiplier = 2, res_Ti = Fin 4, res_Setup_Cost = Fin 2,
        res_Holding_Cost = Fin 2, res_Total_Item_Cost = Fin 4\<rparr>]) \<and>
   mset [''X'', ''Y''] = mset (map item_id (inst_items two_items))"
  using results_one_record_per_item [OF two_items_result] two_items_result by auto

end
